theory Spec2Isabelle
  imports Main
begin

section \<open>The reporting sink: \<open>ts::Report\<close>\<close>

text \<open>
  \<open>ts::Report\<close> keeps one member, \<open>_max_severity\<close>, a C++ \<open>int\<close>. The code only copies
  and compares severities, it never computes with them, so they are modelled as \<open>int\<close>.
  \<open>writeLog\<close> is the virtual output method of the class; what a report has handed to it is
  kept, in call order, in \<open>written\<close>.
\<close>

record Report =
  max_severity :: int
  written :: "(int \<times> string) list"

text \<open>The arguments of a format string (\<open>ArgMixIn\<close>): integers and strings.\<close>

datatype ArgMixIn = ArgInt int | ArgStr string

text \<open>
  \<open>UString::Format\<close> is not among the sources: every definition that formats takes it as
  the parameter \<open>Format\<close>. The constant \<open>Severity::Debug\<close> is declared in \<open>tsReport.h\<close>,
  also absent: it is the parameter \<open>Debug\<close>.
\<close>

type_synonym formatter = "string \<Rightarrow> ArgMixIn list \<Rightarrow> string"

text \<open>The constructor \<open>Report(int max_severity)\<close>.\<close>

definition Report_ctor :: "int \<Rightarrow> Report" where
  "Report_ctor max_sev = \<lparr>max_severity = max_sev, written = []\<rparr>"

definition writeLog :: "int \<Rightarrow> string \<Rightarrow> Report \<Rightarrow> Report" where
  "writeLog severity msg r = r\<lparr>written := written r @ [(severity, msg)]\<rparr>"

text \<open>\<open>void log(int severity, const UString& msg)\<close>\<close>

definition Report_log :: "int \<Rightarrow> string \<Rightarrow> Report \<Rightarrow> Report" where
  "Report_log severity msg r =
     (if severity \<le> max_severity r then writeLog severity msg r else r)"

text \<open>\<open>void log(int severity, const UChar* fmt, const std::initializer_list<ArgMixIn> args)\<close>\<close>

definition Report_log_fmt :: "formatter \<Rightarrow> int \<Rightarrow> string \<Rightarrow> ArgMixIn list \<Rightarrow> Report \<Rightarrow> Report" where
  "Report_log_fmt Format severity fmt args r =
     (if severity \<le> max_severity r then Report_log severity (Format fmt args) r else r)"

text \<open>\<open>void log(int severity, const UString& fmt, const std::initializer_list<ArgMixIn> args)\<close>\<close>

definition Report_log_ufmt :: "formatter \<Rightarrow> int \<Rightarrow> string \<Rightarrow> ArgMixIn list \<Rightarrow> Report \<Rightarrow> Report" where
  "Report_log_ufmt Format severity fmt args r =
     (if severity \<le> max_severity r then Report_log severity (Format fmt args) r else r)"

definition setMaxSeverity :: "formatter \<Rightarrow> int \<Rightarrow> int \<Rightarrow> Report \<Rightarrow> Report" where
  "setMaxSeverity Format Debug level r =
     (let r1 = r\<lparr>max_severity := level\<rparr> in
      if level \<ge> Debug
      then Report_log_fmt Format level ''debug level set to %d'' [ArgInt level] r1
      else r1)"

definition raiseMaxSeverity :: "formatter \<Rightarrow> int \<Rightarrow> int \<Rightarrow> Report \<Rightarrow> Report" where
  "raiseMaxSeverity Format Debug level r =
     (if max_severity r < level then setMaxSeverity Format Debug level r else r)"

section \<open>The TCP socket: \<open>ts::TCPSocket\<close>\<close>

subsection \<open>What the header defines\<close>

text \<open>\<open>TS_SOCKET_T\<close> is the platform's integer handle type.\<close>

type_synonym TS_SOCKET_T = int

text \<open>
  Modelled from the spec: the macro \<open>TS_SOCKET_T_INVALID\<close> is not among the sources; the
  spec calls it "an explicit invalid sentinel distinct from any valid handle value". The
  general theorems below do not depend on the number chosen for it; the worked examples
  only use that \<open>3\<close> and \<open>4\<close> differ from it.
\<close>

definition TS_SOCKET_T_INVALID :: TS_SOCKET_T where
  "TS_SOCKET_T_INVALID = - 1"

text \<open>
  The object has the members \<open>_sock\<close> and \<open>_mutex\<close>. Operations are taken one at a time
  here, so the mutex is left out.
\<close>

record TCPSocket =
  sock :: TS_SOCKET_T

text \<open>\<open>TCPSocket() : _sock(TS_SOCKET_T_INVALID) {}\<close>\<close>

definition TCPSocket_ctor :: TCPSocket where
  "TCPSocket_ctor = \<lparr>sock = TS_SOCKET_T_INVALID\<rparr>"

text \<open>\<open>bool isOpen() const {return _sock != TS_SOCKET_T_INVALID;}\<close>\<close>

definition isOpen :: "TCPSocket \<Rightarrow> bool" where
  "isOpen s = (sock s \<noteq> TS_SOCKET_T_INVALID)"

text \<open>\<open>TS_SOCKET_T getSocket() const {return _sock;}\<close>\<close>

definition getSocket :: "TCPSocket \<Rightarrow> TS_SOCKET_T" where
  "getSocket s = sock s"

subsection \<open>The surroundings of one socket\<close>

text \<open>
  A \<open>ReportInterface&\<close> argument names the sink an operation reports to: \<open>CERR\<close> (the
  default argument), \<open>NULLREP\<close> (the one the destructor passes) or any other sink.
\<close>

datatype ReportInterface = CERR | NULLREP | Sink nat

text \<open>
  What an operation does outside the object is recorded, in order, as events: the request
  of a new handle from the operating system with the handle returned (the invalid one when
  the request failed), the release of a handle with its outcome, the two notifications
  \<open>handleOpened\<close> and \<open>handleClosed\<close> with the value \<open>_sock\<close> held when they ran, and an
  error diagnostic sent to a sink.
\<close>

datatype event =
    SysSocket TS_SOCKET_T
  | SysClose TS_SOCKET_T bool
  | HandleOpened TS_SOCKET_T
  | HandleClosed TS_SOCKET_T
  | ErrorReport ReportInterface

text \<open>
  Modelled from the spec: the address type (\<open>tsSocketAddress.h\<close>) is not among the
  sources. It carries "an IP-address-or-wildcard and a port-or-wildcard"; the wildcard port
  is the \<open>port = 0\<close> of the spec's scenario.
\<close>

record SocketAddress =
  address :: nat
  port :: nat

definition AnyPort :: nat where
  "AnyPort = 0"

text \<open>
  Modelled from the spec: the "kernel socket option state" that the setters configure is
  outside the sources. The tuning options of the eight setters, and the kernel's state
  for the handle the object holds: the options last applied (\<open>None\<close>: never set), the linger option in its two
  modes (\<open>None\<close>: no linger, \<open>Some n\<close>: linger for \<open>n\<close> seconds), and the local address the
  handle is bound to.
\<close>

datatype sockopt =
    SendBufferSize nat
  | ReceiveBufferSize nat
  | ReusePort bool
  | TTL int
  | NoLinger
  | LingerTime int
  | KeepAlive bool
  | NoDelay bool

record kernel_socket =
  so_sndbuf :: "nat option"
  so_rcvbuf :: "nat option"
  so_reuse :: bool
  so_ttl :: "int option"
  so_linger :: "int option"
  so_keepalive :: bool
  so_nodelay :: bool
  bound :: "SocketAddress option"

definition new_kernel_socket :: kernel_socket where
  "new_kernel_socket =
     \<lparr>so_sndbuf = None, so_rcvbuf = None, so_reuse = False, so_ttl = None,
      so_linger = None, so_keepalive = False, so_nodelay = False, bound = None\<rparr>"

fun apply_sockopt :: "sockopt \<Rightarrow> kernel_socket \<Rightarrow> kernel_socket" where
  "apply_sockopt (SendBufferSize n) k = k\<lparr>so_sndbuf := Some n\<rparr>"
| "apply_sockopt (ReceiveBufferSize n) k = k\<lparr>so_rcvbuf := Some n\<rparr>"
| "apply_sockopt (ReusePort b) k = k\<lparr>so_reuse := b\<rparr>"
| "apply_sockopt (TTL t) k = k\<lparr>so_ttl := Some t\<rparr>"
| "apply_sockopt NoLinger k = k\<lparr>so_linger := None\<rparr>"
| "apply_sockopt (LingerTime n) k = k\<lparr>so_linger := Some n\<rparr>"
| "apply_sockopt (KeepAlive b) k = k\<lparr>so_keepalive := b\<rparr>"
| "apply_sockopt (NoDelay b) k = k\<lparr>so_nodelay := b\<rparr>"

text \<open>One socket object together with the kernel state of its handle and the events so far.\<close>

record system =
  this :: TCPSocket
  kernel :: kernel_socket
  trace :: "event list"

definition start :: system where
  "start = \<lparr>this = TCPSocket_ctor, kernel = new_kernel_socket, trace = []\<rparr>"

definition report_error :: "ReportInterface \<Rightarrow> system \<Rightarrow> system" where
  "report_error report s = s\<lparr>trace := trace s @ [ErrorReport report]\<rparr>"

text \<open>
  \<open>virtual void handleOpened(ReportInterface&) {}\<close> and
  \<open>virtual void handleClosed(ReportInterface&) {}\<close>: the bodies are empty. So that calls
  can be counted and placed, the model records each call with the handle the object holds
  at that moment.
\<close>

definition handleOpened :: "ReportInterface \<Rightarrow> system \<Rightarrow> system" where
  "handleOpened report s = s\<lparr>trace := trace s @ [HandleOpened (sock (this s))]\<rparr>"

definition handleClosed :: "ReportInterface \<Rightarrow> system \<Rightarrow> system" where
  "handleClosed report s = s\<lparr>trace := trace s @ [HandleClosed (sock (this s))]\<rparr>"

subsection \<open>The operations whose bodies are in \<open>tsTCPSocket.cpp\<close>\<close>

text \<open>
  Modelled from the spec: the body of \<open>TCPSocket::open\<close> is not among the sources. The spec:
  "calling open while already open is an error"; open "requests a new OS socket handle";
  "on success stores it and transitions to Open, then invokes the subclass extension hook
  onOpened"; "on failure the state remains Closed and a diagnostic is sent to the reporting
  sink". The handle the operating system returns is the argument \<open>os_sock\<close>, the invalid
  handle when the request fails. A failed call changes neither the object nor the kernel
  state. A new handle starts with a new kernel state.
\<close>

definition TCPSocket_open :: "TS_SOCKET_T \<Rightarrow> ReportInterface \<Rightarrow> system \<Rightarrow> bool \<times> system" where
  "TCPSocket_open os_sock report s =
     (if isOpen (this s) then (False, report_error report s)
      else
        let s1 = s\<lparr>trace := trace s @ [SysSocket os_sock]\<rparr> in
        if os_sock = TS_SOCKET_T_INVALID then (False, report_error report s1)
        else (True, handleOpened report
                      (s1\<lparr>this := \<lparr>sock = os_sock\<rparr>, kernel := new_kernel_socket\<rparr>)))"

text \<open>
  Modelled from the spec: the body of \<open>TCPSocket::declareOpened\<close> is not among the sources.
  The spec: it "injects an already-accepted native handle into a Socket instance and drives
  it through the same onOpened notification as a self-initiated open, without itself
  calling the OS-level open syscall".
\<close>

definition declareOpened :: "TS_SOCKET_T \<Rightarrow> ReportInterface \<Rightarrow> system \<Rightarrow> system" where
  "declareOpened h report s =
     handleOpened report (s\<lparr>this := \<lparr>sock = h\<rparr>, kernel := new_kernel_socket\<rparr>)"

text \<open>
  Modelled from the spec: the body of \<open>TCPSocket::close\<close> is not among the sources. The spec:
  "if Open, invokes the subclass extension hook onClosed [...], then releases the OS handle
  and resets to Closed. If already Closed, this is a harmless no-op returning success".
  The header adds "@return True on success, false on error", and the spec speaks of "the
  close error" that the destructor loses: the outcome of the release is the argument
  \<open>os_ok\<close>, and a failed release is reported to the sink and returned as \<open>False\<close>.
\<close>

definition TCPSocket_close :: "bool \<Rightarrow> ReportInterface \<Rightarrow> system \<Rightarrow> bool \<times> system" where
  "TCPSocket_close os_ok report s =
     (if \<not> isOpen (this s) then (True, s)
      else
        let h = sock (this s);
            s1 = handleClosed report s;
            s2 = s1\<lparr>this := \<lparr>sock = TS_SOCKET_T_INVALID\<rparr>, kernel := new_kernel_socket,
                    trace := trace s1 @ [SysClose h os_ok]\<rparr>
        in if os_ok then (True, s2) else (False, report_error report s2))"

text \<open>\<open>virtual ~TCPSocket() { close(NULLREP); }\<close>: the result of \<open>close\<close> is dropped.\<close>

definition TCPSocket_dtor :: "bool \<Rightarrow> system \<Rightarrow> system" where
  "TCPSocket_dtor os_ok s = snd (TCPSocket_close os_ok NULLREP s)"

text \<open>
  Modelled from the spec: the bodies of the eight option setters are not among the sources.
  The spec: each "configures one OS-level socket tuning parameter", "applies the option
  immediately to the live handle and fails if the handle is invalid", "returns
  success/failure and reports a diagnostic [...] on failure", and has no "visible effect
  beyond the kernel socket option state". Whether the operating system accepts the option
  is the argument \<open>os_ok\<close>.
\<close>

definition setOption :: "sockopt \<Rightarrow> bool \<Rightarrow> ReportInterface \<Rightarrow> system \<Rightarrow> bool \<times> system" where
  "setOption opt os_ok report s =
     (if \<not> isOpen (this s) \<or> \<not> os_ok then (False, report_error report s)
      else (True, s\<lparr>kernel := apply_sockopt opt (kernel s)\<rparr>))"

definition setSendBufferSize :: "nat \<Rightarrow> bool \<Rightarrow> ReportInterface \<Rightarrow> system \<Rightarrow> bool \<times> system" where
  "setSendBufferSize sz = setOption (SendBufferSize sz)"

definition setReceiveBufferSize :: "nat \<Rightarrow> bool \<Rightarrow> ReportInterface \<Rightarrow> system \<Rightarrow> bool \<times> system" where
  "setReceiveBufferSize sz = setOption (ReceiveBufferSize sz)"

definition reusePort :: "bool \<Rightarrow> bool \<Rightarrow> ReportInterface \<Rightarrow> system \<Rightarrow> bool \<times> system" where
  "reusePort active = setOption (ReusePort active)"

definition setTTL :: "int \<Rightarrow> bool \<Rightarrow> ReportInterface \<Rightarrow> system \<Rightarrow> bool \<times> system" where
  "setTTL ttl = setOption (TTL ttl)"

definition setNoLinger :: "bool \<Rightarrow> ReportInterface \<Rightarrow> system \<Rightarrow> bool \<times> system" where
  "setNoLinger = setOption NoLinger"

definition setLingerTime :: "int \<Rightarrow> bool \<Rightarrow> ReportInterface \<Rightarrow> system \<Rightarrow> bool \<times> system" where
  "setLingerTime seconds = setOption (LingerTime seconds)"

definition setKeepAlive :: "bool \<Rightarrow> bool \<Rightarrow> ReportInterface \<Rightarrow> system \<Rightarrow> bool \<times> system" where
  "setKeepAlive active = setOption (KeepAlive active)"

definition setNoDelay :: "bool \<Rightarrow> bool \<Rightarrow> ReportInterface \<Rightarrow> system \<Rightarrow> bool \<times> system" where
  "setNoDelay active = setOption (NoDelay active)"

text \<open>
  Modelled from the spec: the body of \<open>TCPSocket::bind\<close> is not among the sources. The spec:
  bind "fails if the requested port is already bound by another socket and the reuse port
  option was not previously set on this socket", and "returns success/failure with
  diagnostic on failure"; the header: "If this TCP port is already bound by another local
  TCP socket, the bind operation fails, unless the reuse port option has already been
  set." The ports that other local sockets are bound to at the time of the call are the
  argument \<open>others\<close>; whether the operating system accepts a bind that this rule does not
  exclude is the argument \<open>os_ok\<close>.
\<close>

definition TCPSocket_bind ::
  "SocketAddress \<Rightarrow> nat list \<Rightarrow> bool \<Rightarrow> ReportInterface \<Rightarrow> system \<Rightarrow> bool \<times> system" where
  "TCPSocket_bind addr others os_ok report s =
     (if \<not> isOpen (this s) then (False, report_error report s)
      else if port addr \<noteq> AnyPort \<and> port addr \<in> set others \<and> \<not> so_reuse (kernel s)
        then (False, report_error report s)
      else if \<not> os_ok then (False, report_error report s)
      else (True, s\<lparr>kernel := (kernel s)\<lparr>bound := Some addr\<rparr>\<rparr>))"

text \<open>
  Modelled from the spec: the body of \<open>TCPSocket::getLocalAddress\<close> is not among the
  sources. The spec: it "queries the OS for the address/port actually bound" and "fails if
  not open or if the underlying query fails". The answer of the operating system is the
  argument \<open>os_addr\<close>, \<open>None\<close> when the query fails.
\<close>

definition getLocalAddress ::
  "SocketAddress option \<Rightarrow> ReportInterface \<Rightarrow> system \<Rightarrow> SocketAddress option \<times> system" where
  "getLocalAddress os_addr report s =
     (if \<not> isOpen (this s) \<or> os_addr = None then (None, report_error report s)
      else (os_addr, s))"

subsection \<open>Sequences of operations on one socket\<close>

text \<open>
  One call of a member function, with what the operating system answers to it. The class
  has no copy constructor and no copy assignment (both are deleted in the header): there
  is no operation for them.
\<close>

datatype op =
    Open TS_SOCKET_T ReportInterface
  | Close bool ReportInterface
  | DeclareOpened TS_SOCKET_T ReportInterface
  | SetOption sockopt bool ReportInterface
  | Bind SocketAddress "nat list" bool ReportInterface
  | GetLocalAddress "SocketAddress option" ReportInterface
  | IsOpen
  | GetSocket

text \<open>The system after one call; the value the call returns is dropped.\<close>

fun exec :: "op \<Rightarrow> system \<Rightarrow> system" where
  "exec (Open os_sock report) s = snd (TCPSocket_open os_sock report s)"
| "exec (Close os_ok report) s = snd (TCPSocket_close os_ok report s)"
| "exec (DeclareOpened h report) s = declareOpened h report s"
| "exec (SetOption opt os_ok report) s = snd (setOption opt os_ok report s)"
| "exec (Bind addr others os_ok report) s = snd (TCPSocket_bind addr others os_ok report s)"
| "exec (GetLocalAddress os_addr report) s = snd (getLocalAddress os_addr report s)"
| "exec IsOpen s = snd (isOpen (this s), s)"
| "exec GetSocket s = snd (getSocket (this s), s)"

fun run :: "op list \<Rightarrow> system \<Rightarrow> system" where
  "run [] s = s"
| "run (x # xs) s = run xs (exec x s)"

text \<open>The operations that can take a closed socket to the open state.\<close>

fun is_open_op :: "op \<Rightarrow> bool" where
  "is_open_op (Open os_sock report) = True"
| "is_open_op (DeclareOpened h report) = True"
| "is_open_op x = False"

text \<open>
  Reading a trace: the events an operation added, the handles whose release was asked of
  the operating system, the handles \<open>handleOpened\<close> and \<open>handleClosed\<close> were called with,
  and the sinks that were sent a diagnostic.
\<close>

definition new_events :: "system \<Rightarrow> system \<Rightarrow> event list" where
  "new_events s s' = drop (length (trace s)) (trace s')"

fun releases :: "event list \<Rightarrow> TS_SOCKET_T list" where
  "releases [] = []"
| "releases (SysClose h ok # es) = h # releases es"
| "releases (e # es) = releases es"

fun opened_calls :: "event list \<Rightarrow> TS_SOCKET_T list" where
  "opened_calls [] = []"
| "opened_calls (HandleOpened h # es) = h # opened_calls es"
| "opened_calls (e # es) = opened_calls es"

fun closed_calls :: "event list \<Rightarrow> TS_SOCKET_T list" where
  "closed_calls [] = []"
| "closed_calls (HandleClosed h # es) = h # closed_calls es"
| "closed_calls (e # es) = closed_calls es"

fun reported_to :: "event list \<Rightarrow> ReportInterface list" where
  "reported_to [] = []"
| "reported_to (ErrorReport r # es) = r # reported_to es"
| "reported_to (e # es) = reported_to es"

text \<open>
  Reading a sequence of operations: the handles it stores in the object, one for each
  \<open>open\<close> that succeeds and one for each \<open>declareOpened\<close>, and the handles held when a
  \<open>close\<close> found the socket open.
\<close>

fun installed :: "op list \<Rightarrow> system \<Rightarrow> TS_SOCKET_T list" where
  "installed [] s = []"
| "installed (Open h report # xs) s =
     (if fst (TCPSocket_open h report s) then [h] else []) @ installed xs (exec (Open h report) s)"
| "installed (DeclareOpened h report # xs) s = h # installed xs (exec (DeclareOpened h report) s)"
| "installed (x # xs) s = installed xs (exec x s)"

fun closings :: "op list \<Rightarrow> system \<Rightarrow> TS_SOCKET_T list" where
  "closings [] s = []"
| "closings (Close os_ok report # xs) s =
     (if isOpen (this s) then [getSocket (this s)] else []) @ closings xs (exec (Close os_ok report) s)"
| "closings (x # xs) s = closings xs (exec x s)"

subsection \<open>Several sockets in one process\<close>

text \<open>
  The live \<open>TCPSocket\<close> objects of a process, by identity, the descriptors the operating
  system has open for the process, and the descriptors a listening server has accepted
  and not yet handed to an object.
\<close>

record world =
  objects :: "nat \<Rightarrow> system option"
  fds :: "TS_SOCKET_T set"
  accepted :: "TS_SOCKET_T set"

definition empty_world :: world where
  "empty_world = \<lparr>objects = Map.empty, fds = {}, accepted = {}\<rparr>"

text \<open>
  What happens in the process: an object is constructed, an object is destroyed, a member
  function is called on an object, a server accepts a connection. Nothing else creates
  an object: the copy constructor and the copy assignment are deleted.
\<close>

datatype action =
    New nat
  | Delete nat bool
  | Call nat op
  | Accept TS_SOCKET_T

text \<open>The descriptor table follows the requests recorded in the trace.\<close>

fun sys_effect :: "event \<Rightarrow> TS_SOCKET_T set \<Rightarrow> TS_SOCKET_T set" where
  "sys_effect (SysSocket h) d = (if h = TS_SOCKET_T_INVALID then d else insert h d)"
| "sys_effect (SysClose h ok) d = d - {h}"
| "sys_effect e d = d"

text \<open>
  The operating system never hands out a descriptor that is still open: an answer
  \<open>SysSocket h\<close> with a valid \<open>h\<close> that is in the table is not a behaviour of the system.
\<close>

fun sys_possible :: "TS_SOCKET_T set \<Rightarrow> event \<Rightarrow> bool" where
  "sys_possible d (SysSocket h) = (h = TS_SOCKET_T_INVALID \<or> h \<notin> d)"
| "sys_possible d e = True"

text \<open>
  One action; \<open>None\<close> when it cannot happen: an object identity in use or not live, an
  answer the operating system cannot give, or a server handing over a handle it has not
  accepted (the spec: \<open>declareOpened\<close> "injects an already-accepted native handle").
\<close>

fun act :: "action \<Rightarrow> world \<Rightarrow> world option" where
  "act (New i) w =
     (if objects w i \<noteq> None then None
      else Some (w\<lparr>objects := (objects w)(i \<mapsto> start)\<rparr>))"
| "act (Accept h) w =
     (if h = TS_SOCKET_T_INVALID \<or> h \<in> fds w then None
      else Some (w\<lparr>fds := insert h (fds w), accepted := insert h (accepted w)\<rparr>))"
| "act (Delete i os_ok) w =
     (case objects w i of
        None \<Rightarrow> None
      | Some s \<Rightarrow>
          Some (w\<lparr>objects := (objects w)(i := None),
                  fds := fold sys_effect (new_events s (TCPSocket_dtor os_ok s)) (fds w)\<rparr>))"
| "act (Call i (DeclareOpened h report)) w =
     (case objects w i of
        None \<Rightarrow> None
      | Some s \<Rightarrow>
          if h \<notin> accepted w then None
          else Some (w\<lparr>objects := (objects w)(i \<mapsto> exec (DeclareOpened h report) s),
                       accepted := accepted w - {h}\<rparr>))"
| "act (Call i x) w =
     (case objects w i of
        None \<Rightarrow> None
      | Some s \<Rightarrow>
          if \<not> list_all (sys_possible (fds w)) (new_events s (exec x s)) then None
          else Some (w\<lparr>objects := (objects w)(i \<mapsto> exec x s),
                       fds := fold sys_effect (new_events s (exec x s)) (fds w)\<rparr>))"

fun runw :: "action list \<Rightarrow> world \<Rightarrow> world option" where
  "runw [] w = Some w"
| "runw (a # as) w = (case act a w of None \<Rightarrow> None | Some w' \<Rightarrow> runw as w')"

text \<open>
  Invariant I2 of the spec: "at most one live Socket instance owns a given native handle
  value at a time".
\<close>

definition I2 :: "world \<Rightarrow> bool" where
  "I2 w = (\<forall>i j si sj. objects w i = Some si \<and> objects w j = Some sj \<and> i \<noteq> j
              \<and> isOpen (this si) \<longrightarrow> getSocket (this si) \<noteq> getSocket (this sj))"

text \<open>
  The invariant that the actions maintain: an accepted descriptor is open, the handle of
  an open object is an open descriptor that is not waiting to be handed over, and I2.
\<close>

definition world_inv :: "world \<Rightarrow> bool" where
  "world_inv w =
     (accepted w \<subseteq> fds w
      \<and> (\<forall>i s. objects w i = Some s \<and> isOpen (this s) \<longrightarrow>
             getSocket (this s) \<in> fds w \<and> getSocket (this s) \<notin> accepted w)
      \<and> I2 w)"

section \<open>Properties of the reporting sink\<close>

lemma max_severity_log [simp]: "max_severity (Report_log s m r) = max_severity r"
  by (simp add: Report_log_def writeLog_def)

lemma max_severity_log_fmt [simp]:
  "max_severity (Report_log_fmt F s f a r) = max_severity r"
  by (simp add: Report_log_fmt_def)

lemma max_severity_set [simp]:
  "max_severity (setMaxSeverity F D l r) = l"
  by (simp add: setMaxSeverity_def Let_def)

text \<open>
  Claim C9. A message of severity \<open>s\<close> reaches \<open>writeLog\<close> exactly when \<open>s\<close> is at or below
  the threshold \<open>max_severity\<close>: then the output grows by exactly that one entry and
  nothing else changes; otherwise the report is left as it was. Both formatted overloads
  do the same as \<open>log\<close> on the formatted message.
\<close>

theorem log_filters_by_threshold:
  "(written (Report_log s m r) = written r @ [(s, m)] \<longleftrightarrow> s \<le> max_severity r)
   \<and> (s \<le> max_severity r \<longrightarrow> Report_log s m r = writeLog s m r)
   \<and> (\<not> s \<le> max_severity r \<longrightarrow> Report_log s m r = r)
   \<and> max_severity (Report_log s m r) = max_severity r
   \<and> Report_log_fmt Format s fmt args r = Report_log s (Format fmt args) r
   \<and> Report_log_ufmt Format s fmt args r = Report_log s (Format fmt args) r"
  by (simp add: Report_log_def Report_log_fmt_def Report_log_ufmt_def writeLog_def)

theorem log_filters_by_threshold_witness:
  "(- 3) \<le> max_severity (Report_ctor 0)
   \<and> Report_log (- 3) ''oops'' (Report_ctor 0)
       = \<lparr>max_severity = 0, written = [(- 3, ''oops'')]\<rparr>
   \<and> \<not> 1 \<le> max_severity (Report_ctor 0)
   \<and> Report_log 1 ''dbg'' (Report_ctor 0) = Report_ctor 0"
  using log_filters_by_threshold [of "- 3" "''oops''" "Report_ctor 0"]
        log_filters_by_threshold [of 1 "''dbg''" "Report_ctor 0"]
  by (simp add: Report_ctor_def writeLog_def)

text \<open>
  Claim C10. \<open>raiseMaxSeverity\<close> never lowers the threshold: afterwards it is the maximum
  of the old threshold and the argument. When the argument is not above the threshold the
  call changes nothing at all, and a second call with the same level changes nothing more.
\<close>

theorem raiseMaxSeverity_max:
  "max_severity (raiseMaxSeverity Format Debug l r) = max (max_severity r) l
   \<and> max_severity r \<le> max_severity (raiseMaxSeverity Format Debug l r)
   \<and> (l \<le> max_severity r \<longrightarrow> raiseMaxSeverity Format Debug l r = r)
   \<and> raiseMaxSeverity Format Debug l (raiseMaxSeverity Format Debug l r)
       = raiseMaxSeverity Format Debug l r"
  by (simp add: raiseMaxSeverity_def)

theorem raiseMaxSeverity_max_witness:
  "(0::int) \<le> max_severity (Report_ctor 1)
   \<and> raiseMaxSeverity (\<lambda>f a. f) 1 0 (Report_ctor 1) = Report_ctor 1
   \<and> max_severity (raiseMaxSeverity (\<lambda>f a. f) 1 2 (Report_ctor 1)) = 2"
  using raiseMaxSeverity_max [of "\<lambda>f a. f" 1 0 "Report_ctor 1"]
        raiseMaxSeverity_max [of "\<lambda>f a. f" 1 2 "Report_ctor 1"]
  by (simp add: Report_ctor_def)

section \<open>Properties of one socket\<close>

lemmas op_defs = TCPSocket_open_def TCPSocket_close_def declareOpened_def setOption_def
  TCPSocket_bind_def getLocalAddress_def handleOpened_def handleClosed_def report_error_def

text \<open>The state that the examples use: a socket opened with the handle \<open>3\<close>.\<close>

lemma opened_3:
  "run [Open 3 CERR] start =
     \<lparr>this = \<lparr>sock = 3\<rparr>, kernel = new_kernel_socket, trace = [SysSocket 3, HandleOpened 3]\<rparr>"
  by (simp add: op_defs Let_def isOpen_def start_def TCPSocket_ctor_def TS_SOCKET_T_INVALID_def)

lemma exec_keeps_closed:
  "\<not> isOpen (this s) \<Longrightarrow> \<not> is_open_op x \<Longrightarrow> \<not> isOpen (this (exec x s))"
  by (cases x) (simp_all add: op_defs Let_def)

lemma run_keeps_closed:
  "\<not> isOpen (this s) \<Longrightarrow> \<forall>x \<in> set ops. \<not> is_open_op x \<Longrightarrow> \<not> isOpen (this (run ops s))"
  by (induction ops arbitrary: s) (simp_all add: exec_keeps_closed)

text \<open>
  Claim C6. A newly constructed socket is closed: its handle is the invalid sentinel,
  \<open>isOpen\<close> is false and \<open>getSocket\<close> returns the sentinel. It stays closed under every
  sequence of operations that contains neither \<open>open\<close> nor the server-assisted open, and an
  \<open>open\<close> that the operating system answers with a valid handle takes it to the open state.
\<close>

theorem constructed_closed:
  "sock TCPSocket_ctor = TS_SOCKET_T_INVALID
   \<and> \<not> isOpen TCPSocket_ctor
   \<and> getSocket TCPSocket_ctor = TS_SOCKET_T_INVALID
   \<and> ((\<forall>x \<in> set ops. \<not> is_open_op x) \<longrightarrow> \<not> isOpen (this (run ops start)))
   \<and> (h \<noteq> TS_SOCKET_T_INVALID \<longrightarrow> isOpen (this (exec (Open h report) start)))"
proof -
  have c: "\<not> isOpen (this start)"
    by (simp add: start_def TCPSocket_ctor_def isOpen_def)
  have "(\<forall>x \<in> set ops. \<not> is_open_op x) \<longrightarrow> \<not> isOpen (this (run ops start))"
    using run_keeps_closed [OF c] by blast
  moreover have "h \<noteq> TS_SOCKET_T_INVALID \<longrightarrow> isOpen (this (exec (Open h report) start))"
    by (simp add: op_defs start_def TCPSocket_ctor_def isOpen_def Let_def)
  ultimately show ?thesis
    by (simp add: TCPSocket_ctor_def isOpen_def getSocket_def)
qed

theorem constructed_closed_witness:
  "\<not> is_open_op (SetOption (NoDelay True) True CERR)
   \<and> \<not> is_open_op (Close True CERR)
   \<and> \<not> is_open_op IsOpen
   \<and> \<not> isOpen (this (run [SetOption (NoDelay True) True CERR, Close True CERR, IsOpen] start))
   \<and> (3::int) \<noteq> TS_SOCKET_T_INVALID
   \<and> isOpen (this (exec (Open 3 CERR) start))"
  using constructed_closed [of "[SetOption (NoDelay True) True CERR, Close True CERR, IsOpen]" 3 CERR]
  by (simp add: TS_SOCKET_T_INVALID_def)

text \<open>
  Claim C7. \<open>isOpen\<close> is true exactly when the stored handle differs from the invalid
  sentinel; \<open>getSocket\<close> returns the stored handle, which is the sentinel exactly when the
  socket is not open. Both are total functions of the object alone (they are \<open>const\<close>
  members), and calling them leaves the object, the kernel state and the trace as they
  were.
\<close>

theorem queries_pure:
  "isOpen s = (sock s \<noteq> TS_SOCKET_T_INVALID)
   \<and> getSocket s = sock s
   \<and> (getSocket s = TS_SOCKET_T_INVALID \<longleftrightarrow> \<not> isOpen s)
   \<and> exec IsOpen sys = sys
   \<and> exec GetSocket sys = sys"
  by (simp add: isOpen_def getSocket_def)

text \<open>
  Claim C1. In every state that a sequence of operations reaches from construction, if the
  socket is closed then \<open>close\<close> returns success and changes nothing: not the handle, not
  the kernel state, and no event is added. In particular a second \<open>close\<close> after a first is
  such a call.
\<close>

theorem close_idempotent:
  "(\<not> isOpen (this (run ops start)) \<longrightarrow>
      TCPSocket_close os_ok report (run ops start) = (True, run ops start))
   \<and> TCPSocket_close os_ok report (snd (TCPSocket_close os_ok' report' (run ops start)))
       = (True, snd (TCPSocket_close os_ok' report' (run ops start)))"
  by (simp add: op_defs Let_def isOpen_def)

theorem close_idempotent_witness:
  "\<not> isOpen (this (run [Open 3 CERR, Close True CERR] start))
   \<and> TCPSocket_close False (Sink 1) (run [Open 3 CERR, Close True CERR] start)
       = (True, run [Open 3 CERR, Close True CERR] start)"
proof -
  have c: "\<not> isOpen (this (run [Open 3 CERR, Close True CERR] start))"
    using opened_3 by (simp add: TCPSocket_close_def handleClosed_def Let_def isOpen_def)
  with close_idempotent [of "[Open 3 CERR, Close True CERR]" False "Sink 1"]
  show ?thesis by blast
qed

text \<open>The notifications and the releases in the trace of a whole sequence.\<close>

lemma opened_calls_append: "opened_calls (es @ fs) = opened_calls es @ opened_calls fs"
  by (induction es rule: opened_calls.induct) simp_all

lemma closed_calls_append: "closed_calls (es @ fs) = closed_calls es @ closed_calls fs"
  by (induction es rule: closed_calls.induct) simp_all

lemma releases_append: "releases (es @ fs) = releases es @ releases fs"
  by (induction es rule: releases.induct) simp_all

lemma exec_opened_calls:
  "opened_calls (trace (exec x s)) = opened_calls (trace s) @ installed [x] s"
  by (cases x) (simp_all add: op_defs Let_def opened_calls_append)

lemma exec_closed_calls:
  "closed_calls (trace (exec x s)) = closed_calls (trace s) @ closings [x] s"
  "releases (trace (exec x s)) = releases (trace s) @ closings [x] s"
  by (cases x; simp add: op_defs Let_def closed_calls_append releases_append getSocket_def)+

lemma installed_Cons: "installed (x # xs) s = installed [x] s @ installed xs (exec x s)"
  by (cases x) simp_all

lemma closings_Cons: "closings (x # xs) s = closings [x] s @ closings xs (exec x s)"
  by (cases x) simp_all

lemma run_opened_calls:
  "opened_calls (trace (run ops s)) = opened_calls (trace s) @ installed ops s"
proof (induction ops arbitrary: s)
  case Nil
  show ?case by simp
next
  case (Cons x xs)
  have "opened_calls (trace (run (x # xs) s)) = opened_calls (trace (exec x s)) @ installed xs (exec x s)"
    using Cons.IH [of "exec x s"] by simp
  also have "\<dots> = opened_calls (trace s) @ installed [x] s @ installed xs (exec x s)"
    by (simp add: exec_opened_calls)
  also have "\<dots> = opened_calls (trace s) @ installed (x # xs) s"
    using installed_Cons [of x xs s] by simp
  finally show ?case .
qed

lemma run_closed_calls:
  "closed_calls (trace (run ops s)) = closed_calls (trace s) @ closings ops s
   \<and> releases (trace (run ops s)) = releases (trace s) @ closings ops s"
proof (induction ops arbitrary: s)
  case Nil
  show ?case by simp
next
  case (Cons x xs)
  from Cons.IH [of "exec x s"] closings_Cons [of x xs s] show ?case
    by (simp add: exec_closed_calls)
qed

text \<open>
  Claim C2. A successful \<open>open\<close> adds exactly the events "handle requested" and
  "\<open>handleOpened\<close> called", in this order: the notification runs once, with the new handle
  already stored in the object, and is part of what \<open>open\<close> has done when it returns; a
  failed \<open>open\<close> does not call it. \<open>declareOpened\<close> stores the injected handle and calls the
  same notification once, with no request to the operating system. A \<open>close\<close> of an open
  socket calls \<open>handleClosed\<close> once, with the handle still stored, and only then releases
  the handle; a \<open>close\<close> of a closed socket calls nothing. Over a whole sequence of
  operations from construction, the calls of \<open>handleOpened\<close> are, in order, exactly the
  handles stored by the successful \<open>open\<close>s and the \<open>declareOpened\<close>s, and the calls of
  \<open>handleClosed\<close>, like the releases, are exactly the handles held when a \<open>close\<close> found
  the socket open.
\<close>

theorem hooks_once:
  "(fst (TCPSocket_open h report s) \<longrightarrow>
      new_events s (snd (TCPSocket_open h report s)) = [SysSocket h, HandleOpened h]
      \<and> getSocket (this (snd (TCPSocket_open h report s))) = h)
   \<and> (\<not> fst (TCPSocket_open h report s) \<longrightarrow>
      opened_calls (new_events s (snd (TCPSocket_open h report s))) = [])
   \<and> new_events s (declareOpened h report s) = [HandleOpened h]
   \<and> getSocket (this (declareOpened h report s)) = h
   \<and> (isOpen (this s) \<longrightarrow>
      new_events s (snd (TCPSocket_close os_ok report s))
        = [HandleClosed (getSocket (this s)), SysClose (getSocket (this s)) os_ok]
          @ (if os_ok then [] else [ErrorReport report])
      \<and> \<not> isOpen (this (snd (TCPSocket_close os_ok report s))))
   \<and> (\<not> isOpen (this s) \<longrightarrow> new_events s (snd (TCPSocket_close os_ok report s)) = [])
   \<and> opened_calls (trace (run ops start)) = installed ops start
   \<and> closed_calls (trace (run ops start)) = closings ops start
   \<and> releases (trace (run ops start)) = closings ops start"
proof -
  have one_call:
    "(fst (TCPSocket_open h report s) \<longrightarrow>
        new_events s (snd (TCPSocket_open h report s)) = [SysSocket h, HandleOpened h]
        \<and> getSocket (this (snd (TCPSocket_open h report s))) = h)
     \<and> (\<not> fst (TCPSocket_open h report s) \<longrightarrow>
        opened_calls (new_events s (snd (TCPSocket_open h report s))) = [])
     \<and> new_events s (declareOpened h report s) = [HandleOpened h]
     \<and> getSocket (this (declareOpened h report s)) = h
     \<and> (isOpen (this s) \<longrightarrow>
        new_events s (snd (TCPSocket_close os_ok report s))
          = [HandleClosed (getSocket (this s)), SysClose (getSocket (this s)) os_ok]
            @ (if os_ok then [] else [ErrorReport report])
        \<and> \<not> isOpen (this (snd (TCPSocket_close os_ok report s))))
     \<and> (\<not> isOpen (this s) \<longrightarrow> new_events s (snd (TCPSocket_close os_ok report s)) = [])"
    by (simp add: op_defs Let_def isOpen_def getSocket_def new_events_def)
  have history:
    "opened_calls (trace (run ops start)) = installed ops start
     \<and> closed_calls (trace (run ops start)) = closings ops start
     \<and> releases (trace (run ops start)) = closings ops start"
    using run_opened_calls [of ops start] run_closed_calls [of ops start]
    by (simp add: start_def)
  from one_call history show ?thesis by blast
qed

theorem hooks_once_witness:
  "fst (TCPSocket_open 3 CERR start)
   \<and> new_events start (snd (TCPSocket_open 3 CERR start)) = [SysSocket 3, HandleOpened 3]
   \<and> isOpen (this (run [Open 3 CERR] start))
   \<and> new_events (run [Open 3 CERR] start)
        (snd (TCPSocket_close True CERR (run [Open 3 CERR] start)))
        = [HandleClosed 3, SysClose 3 True]"
proof -
  have o: "fst (TCPSocket_open 3 CERR start)"
    by (simp add: op_defs Let_def isOpen_def start_def TCPSocket_ctor_def TS_SOCKET_T_INVALID_def)
  have i: "isOpen (this (run [Open 3 CERR] start))"
    unfolding opened_3 by (simp add: isOpen_def TS_SOCKET_T_INVALID_def)
  have g: "getSocket (this (run [Open 3 CERR] start)) = 3"
    unfolding opened_3 by (simp add: getSocket_def)
  from o i g hooks_once [of 3 CERR start True]
       hooks_once [of 3 CERR "run [Open 3 CERR] start" True]
  show ?thesis by simp
qed

lemma reuse_origin:
  "so_reuse (kernel (run ops s)) \<Longrightarrow>
     so_reuse (kernel s) \<or> (\<exists>r. SetOption (ReusePort True) True r \<in> set ops)"
proof (induction ops arbitrary: s)
  case Nil
  then show ?case by simp
next
  case (Cons x xs)
  from Cons.IH [of "exec x s"] Cons.prems
  have "so_reuse (kernel (exec x s)) \<or> (\<exists>r. SetOption (ReusePort True) True r \<in> set xs)"
    by simp
  moreover have "so_reuse (kernel (exec x s)) \<Longrightarrow>
      so_reuse (kernel s) \<or> (\<exists>r. x = SetOption (ReusePort True) True r)"
  proof (cases x)
    case (SetOption opt ok r)
    assume "so_reuse (kernel (exec x s))"
    with SetOption show ?thesis
      by (cases opt) (auto simp: op_defs split: if_splits)
  qed (auto simp: op_defs Let_def new_kernel_socket_def split: if_splits)
  ultimately show ?case by auto
qed

text \<open>
  Claim C3. A \<open>bind\<close> to a specific port that another local socket is bound to succeeds
  only if a successful \<open>reusePort(true)\<close> is among the operations made on this socket
  before it; without the option set the \<open>bind\<close> fails. After a failed \<open>bind\<close>, a call of
  \<open>reusePort\<close> leaves the socket as unbound as it was: only a new \<open>bind\<close>, made after
  \<open>reusePort(true)\<close>, binds it.
\<close>

theorem reusePort_before_bind:
  "(port addr \<noteq> AnyPort \<and> port addr \<in> set others
      \<and> fst (TCPSocket_bind addr others os_ok report (run ops start))
      \<longrightarrow> (\<exists>r. SetOption (ReusePort True) True r \<in> set ops))
   \<and> (port addr \<noteq> AnyPort \<and> port addr \<in> set others \<and> \<not> so_reuse (kernel s)
      \<longrightarrow> \<not> fst (TCPSocket_bind addr others os_ok report s))
   \<and> (\<not> fst (TCPSocket_bind addr others os_ok report s) \<longrightarrow>
        bound (kernel (snd (reusePort active os_ok' report'
                              (snd (TCPSocket_bind addr others os_ok report s)))))
          = bound (kernel s))
   \<and> (isOpen (this s) \<longrightarrow>
        TCPSocket_bind addr others True report (snd (reusePort True True report' s))
          = (True, s\<lparr>kernel := (kernel s)\<lparr>so_reuse := True, bound := Some addr\<rparr>\<rparr>))"
proof -
  have a: "port addr \<noteq> AnyPort \<and> port addr \<in> set others
      \<and> fst (TCPSocket_bind addr others os_ok report (run ops start))
      \<longrightarrow> (\<exists>r. SetOption (ReusePort True) True r \<in> set ops)"
  proof (intro impI, elim conjE)
    assume "port addr \<noteq> AnyPort" "port addr \<in> set others"
      "fst (TCPSocket_bind addr others os_ok report (run ops start))"
    then have "so_reuse (kernel (run ops start))"
      by (simp add: TCPSocket_bind_def split: if_splits)
    from reuse_origin [OF this] show "\<exists>r. SetOption (ReusePort True) True r \<in> set ops"
      by (simp add: start_def new_kernel_socket_def)
  qed
  have b: "port addr \<noteq> AnyPort \<and> port addr \<in> set others \<and> \<not> so_reuse (kernel s)
      \<longrightarrow> \<not> fst (TCPSocket_bind addr others os_ok report s)"
    by (simp add: TCPSocket_bind_def)
  have c: "\<not> fst (TCPSocket_bind addr others os_ok report s) \<longrightarrow>
        bound (kernel (snd (reusePort active os_ok' report'
                              (snd (TCPSocket_bind addr others os_ok report s)))))
          = bound (kernel s)"
    by (cases active) (simp_all add: TCPSocket_bind_def reusePort_def setOption_def report_error_def)
  have d: "isOpen (this s) \<longrightarrow>
        TCPSocket_bind addr others True report (snd (reusePort True True report' s))
          = (True, s\<lparr>kernel := (kernel s)\<lparr>so_reuse := True, bound := Some addr\<rparr>\<rparr>)"
    by (simp add: TCPSocket_bind_def reusePort_def setOption_def)
  from a b c d show ?thesis by blast
qed

theorem reusePort_before_bind_witness:
  "port \<lparr>address = 0, port = 80\<rparr> \<noteq> AnyPort
   \<and> port \<lparr>address = 0, port = 80\<rparr> \<in> set [80]
   \<and> \<not> so_reuse (kernel (run [Open 3 CERR] start))
   \<and> \<not> fst (TCPSocket_bind \<lparr>address = 0, port = 80\<rparr> [80] True CERR (run [Open 3 CERR] start))
   \<and> fst (TCPSocket_bind \<lparr>address = 0, port = 80\<rparr> [80] True CERR
            (run [Open 3 CERR, SetOption (ReusePort True) True CERR] start))
   \<and> (\<exists>r. SetOption (ReusePort True) True r
            \<in> set [Open 3 CERR, SetOption (ReusePort True) True CERR])"
proof -
  have p: "port \<lparr>address = 0, port = 80\<rparr> \<noteq> AnyPort \<and> port \<lparr>address = 0, port = 80\<rparr> \<in> set [80]"
    by (simp add: AnyPort_def)
  have n: "\<not> so_reuse (kernel (run [Open 3 CERR] start))"
    unfolding opened_3 by (simp add: new_kernel_socket_def)
  have r: "run [Open 3 CERR, SetOption (ReusePort True) True CERR] start
             = snd (setOption (ReusePort True) True CERR (run [Open 3 CERR] start))"
    by simp
  have b: "fst (TCPSocket_bind \<lparr>address = 0, port = 80\<rparr> [80] True CERR
            (run [Open 3 CERR, SetOption (ReusePort True) True CERR] start))"
    unfolding r opened_3
    by (simp add: TCPSocket_bind_def setOption_def isOpen_def TS_SOCKET_T_INVALID_def)
  from p n b
    reusePort_before_bind [of "\<lparr>address = 0, port = 80\<rparr>" "[80]" True CERR
       "[Open 3 CERR, SetOption (ReusePort True) True CERR]" "run [Open 3 CERR] start"]
  show ?thesis by blast
qed

text \<open>
  Claim C4. The destructor of an open socket calls \<open>close\<close> with the sink \<open>NULLREP\<close>: the
  release of the handle is asked of the operating system exactly once, for the handle the
  object held, after which the object holds no handle; whatever the outcome of the
  release, the only sink a diagnostic is sent to is \<open>NULLREP\<close>, and the destructor returns
  no result to anyone.
\<close>

theorem dtor_releases_once:
  "isOpen (this s) \<Longrightarrow>
     new_events s (TCPSocket_dtor os_ok s)
       = [HandleClosed (getSocket (this s)), SysClose (getSocket (this s)) os_ok]
         @ (if os_ok then [] else [ErrorReport NULLREP])
     \<and> releases (new_events s (TCPSocket_dtor os_ok s)) = [getSocket (this s)]
     \<and> set (reported_to (new_events s (TCPSocket_dtor os_ok s))) \<subseteq> {NULLREP}
     \<and> \<not> isOpen (this (TCPSocket_dtor os_ok s))"
  by (simp add: TCPSocket_dtor_def op_defs Let_def isOpen_def getSocket_def new_events_def)

theorem dtor_releases_once_witness:
  "isOpen (this (run [Open 3 CERR] start))
   \<and> releases (new_events (run [Open 3 CERR] start)
                 (TCPSocket_dtor False (run [Open 3 CERR] start))) = [3]
   \<and> \<not> isOpen (this (TCPSocket_dtor False (run [Open 3 CERR] start)))"
proof -
  have i: "isOpen (this (run [Open 3 CERR] start))"
    unfolding opened_3 by (simp add: isOpen_def TS_SOCKET_T_INVALID_def)
  have g: "getSocket (this (run [Open 3 CERR] start)) = 3"
    unfolding opened_3 by (simp add: getSocket_def)
  from dtor_releases_once [OF i, of False] i g show ?thesis by simp
qed

text \<open>
  Claim C5. \<open>open\<close> is defined in every state: it has no precondition. It is not
  idempotent: on an open socket it fails, so a second \<open>open\<close> after a successful one
  fails. Whenever \<open>open\<close> fails on a closed socket, the socket remains closed; and every
  failed \<open>open\<close> leaves the object and the kernel state as they were before the call and
  sends exactly one diagnostic, to the sink given.
\<close>

theorem open_not_idempotent:
  "(isOpen (this s) \<longrightarrow> \<not> fst (TCPSocket_open os_sock report s))
   \<and> (fst (TCPSocket_open os_sock report s) \<longrightarrow>
        \<not> fst (TCPSocket_open os_sock' report' (snd (TCPSocket_open os_sock report s))))
   \<and> (\<not> isOpen (this s) \<and> \<not> fst (TCPSocket_open os_sock report s) \<longrightarrow>
        \<not> isOpen (this (snd (TCPSocket_open os_sock report s))))
   \<and> (\<not> fst (TCPSocket_open os_sock report s) \<longrightarrow>
        this (snd (TCPSocket_open os_sock report s)) = this s
        \<and> kernel (snd (TCPSocket_open os_sock report s)) = kernel s
        \<and> reported_to (new_events s (snd (TCPSocket_open os_sock report s))) = [report])"
proof -
  have again: "fst (TCPSocket_open os_sock report s) \<longrightarrow>
        \<not> fst (TCPSocket_open os_sock' report' (snd (TCPSocket_open os_sock report s)))"
    by (simp add: op_defs Let_def isOpen_def)
  have rest: "(isOpen (this s) \<longrightarrow> \<not> fst (TCPSocket_open os_sock report s))
     \<and> (\<not> isOpen (this s) \<and> \<not> fst (TCPSocket_open os_sock report s) \<longrightarrow>
          \<not> isOpen (this (snd (TCPSocket_open os_sock report s))))
     \<and> (\<not> fst (TCPSocket_open os_sock report s) \<longrightarrow>
          this (snd (TCPSocket_open os_sock report s)) = this s
          \<and> kernel (snd (TCPSocket_open os_sock report s)) = kernel s
          \<and> reported_to (new_events s (snd (TCPSocket_open os_sock report s))) = [report])"
    by (simp add: op_defs Let_def isOpen_def new_events_def)
  from again rest show ?thesis by blast
qed

theorem open_not_idempotent_witness:
  "\<not> isOpen (this start)
   \<and> \<not> fst (TCPSocket_open TS_SOCKET_T_INVALID (Sink 2) start)
   \<and> \<not> isOpen (this (snd (TCPSocket_open TS_SOCKET_T_INVALID (Sink 2) start)))
   \<and> reported_to (new_events start (snd (TCPSocket_open TS_SOCKET_T_INVALID (Sink 2) start)))
        = [Sink 2]
   \<and> fst (TCPSocket_open 3 CERR start)
   \<and> isOpen (this (snd (TCPSocket_open 3 CERR start)))
   \<and> \<not> fst (TCPSocket_open 4 CERR (snd (TCPSocket_open 3 CERR start)))"
proof -
  have c: "\<not> isOpen (this start)"
    by (simp add: start_def TCPSocket_ctor_def isOpen_def)
  have f: "\<not> fst (TCPSocket_open TS_SOCKET_T_INVALID (Sink 2) start)"
    by (simp add: op_defs Let_def)
  have o: "fst (TCPSocket_open 3 CERR start)"
    by (simp add: op_defs Let_def isOpen_def start_def TCPSocket_ctor_def TS_SOCKET_T_INVALID_def)
  have i: "isOpen (this (snd (TCPSocket_open 3 CERR start)))"
    by (simp add: op_defs Let_def isOpen_def start_def TCPSocket_ctor_def TS_SOCKET_T_INVALID_def)
  from c f o i
    open_not_idempotent [of start TS_SOCKET_T_INVALID "Sink 2"]
    open_not_idempotent [of start 3 CERR 4 CERR]
  show ?thesis by blast
qed

section \<open>Properties of several sockets\<close>

lemma closed_differs:
  "isOpen a \<Longrightarrow> \<not> isOpen b \<Longrightarrow> getSocket a \<noteq> getSocket b"
  by (auto simp: isOpen_def getSocket_def)

lemma I2_update:
  assumes w: "I2 w"
    and obj: "objects w' = (objects w)(i \<mapsto> s')"
    and new: "isOpen (this s') \<Longrightarrow>
                \<forall>j t. j \<noteq> i \<and> objects w j = Some t \<longrightarrow> getSocket (this t) \<noteq> getSocket (this s')"
  shows "I2 w'"
  unfolding I2_def
proof (intro allI impI, elim conjE)
  fix a b sa sb
  assume a: "objects w' a = Some sa" and b: "objects w' b = Some sb"
    and ne: "a \<noteq> b" and op: "isOpen (this sa)"
  show "getSocket (this sa) \<noteq> getSocket (this sb)"
  proof (cases "a = i")
    case True
    with a ne b obj have "sa = s'" "b \<noteq> i" "objects w b = Some sb" by auto
    with new op show ?thesis by metis
  next
    case ai: False
    with a obj have wa: "objects w a = Some sa" by simp
    show ?thesis
    proof (cases "b = i")
      case True
      with b obj have sb: "sb = s'" by simp
      show ?thesis
      proof (cases "isOpen (this s')")
        case True
        with new ai wa sb show ?thesis by metis
      next
        case False
        with op sb show ?thesis by (simp add: closed_differs)
      qed
    next
      case False
      with b obj have "objects w b = Some sb" by simp
      with w wa ne op show ?thesis unfolding I2_def by blast
    qed
  qed
qed

lemma I2_others:
  "I2 w \<Longrightarrow> objects w i = Some s \<Longrightarrow> isOpen (this s) \<Longrightarrow> j \<noteq> i \<Longrightarrow> objects w j = Some t
     \<Longrightarrow> getSocket (this t) \<noteq> getSocket (this s)"
  unfolding I2_def by metis

lemma inv_update:
  assumes inv: "world_inv w"
    and obj: "objects w' = (objects w)(i \<mapsto> s')"
    and sub: "accepted w' \<subseteq> fds w'"
    and others: "\<And>j t. j \<noteq> i \<Longrightarrow> objects w j = Some t \<Longrightarrow> isOpen (this t) \<Longrightarrow>
                   getSocket (this t) \<in> fds w' \<and> getSocket (this t) \<notin> accepted w'"
    and new: "isOpen (this s') \<Longrightarrow>
                getSocket (this s') \<in> fds w' \<and> getSocket (this s') \<notin> accepted w'
                \<and> (\<forall>j t. j \<noteq> i \<and> objects w j = Some t \<longrightarrow> getSocket (this t) \<noteq> getSocket (this s'))"
  shows "world_inv w'"
proof -
  from inv have i2: "I2 w" by (simp add: world_inv_def)
  have "I2 w'"
  proof (rule I2_update [OF i2 obj])
    assume "isOpen (this s')"
    from new [OF this]
    show "\<forall>j t. j \<noteq> i \<and> objects w j = Some t \<longrightarrow> getSocket (this t) \<noteq> getSocket (this s')"
      by simp
  qed
  moreover have "\<forall>j t. objects w' j = Some t \<and> isOpen (this t) \<longrightarrow>
       getSocket (this t) \<in> fds w' \<and> getSocket (this t) \<notin> accepted w'"
  proof (intro allI impI, elim conjE)
    fix j t assume t: "objects w' j = Some t" and o: "isOpen (this t)"
    show "getSocket (this t) \<in> fds w' \<and> getSocket (this t) \<notin> accepted w'"
    proof (cases "j = i")
      case True
      with t obj have "t = s'" by simp
      with new o show ?thesis by simp
    next
      case False
      with t obj have "objects w j = Some t" by simp
      with False o others show ?thesis by blast
    qed
  qed
  ultimately show ?thesis using sub by (simp add: world_inv_def)
qed

lemma inv_owned:
  "world_inv w \<Longrightarrow> objects w j = Some t \<Longrightarrow> isOpen (this t) \<Longrightarrow>
     getSocket (this t) \<in> fds w \<and> getSocket (this t) \<notin> accepted w"
  unfolding world_inv_def by blast

lemma inv_I2: "world_inv w \<Longrightarrow> I2 w"
  by (simp add: world_inv_def)

lemma inv_accepted: "world_inv w \<Longrightarrow> accepted w \<subseteq> fds w"
  by (simp add: world_inv_def)

text \<open>What one call does to the handle and to the descriptor table.\<close>

declare exec.simps [simp del]

lemma open_effect:
  "this (exec (Open h r) s)
     = (if \<not> isOpen (this s) \<and> h \<noteq> TS_SOCKET_T_INVALID then \<lparr>sock = h\<rparr> else this s)"
  "fold sys_effect (new_events s (exec (Open h r) s)) d
     = (if \<not> isOpen (this s) \<and> h \<noteq> TS_SOCKET_T_INVALID then insert h d else d)"
  "list_all (sys_possible d) (new_events s (exec (Open h r) s))
     = (isOpen (this s) \<or> h = TS_SOCKET_T_INVALID \<or> h \<notin> d)"
  by (simp_all add: exec.simps op_defs Let_def new_events_def)

lemma close_effect:
  "this (exec (Close ok r) s)
     = (if isOpen (this s) then \<lparr>sock = TS_SOCKET_T_INVALID\<rparr> else this s)"
  "fold sys_effect (new_events s (exec (Close ok r) s)) d
     = (if isOpen (this s) then d - {getSocket (this s)} else d)"
  "list_all (sys_possible d) (new_events s (exec (Close ok r) s))"
  by (simp_all add: exec.simps op_defs Let_def new_events_def getSocket_def)

lemma other_effect:
  assumes "\<not> is_open_op x" "\<forall>ok r. x \<noteq> Close ok r"
  shows "this (exec x s) = this s"
    and "fold sys_effect (new_events s (exec x s)) d = d"
    and "list_all (sys_possible d) (new_events s (exec x s))"
  using assms by (cases x; simp add: exec.simps op_defs new_events_def)+

lemma dtor_effect:
  "fold sys_effect (new_events s (TCPSocket_dtor ok s)) d
     = (if isOpen (this s) then d - {getSocket (this s)} else d)"
  by (simp add: TCPSocket_dtor_def op_defs Let_def new_events_def getSocket_def)

lemma new_preserves:
  assumes inv: "world_inv w" and a: "act (New i) w = Some w'"
  shows "world_inv w'"
proof -
  from a have w': "w' = w\<lparr>objects := (objects w)(i \<mapsto> start)\<rparr>"
    by (simp split: if_splits)
  have c: "\<not> isOpen (this start)"
    by (simp add: start_def TCPSocket_ctor_def isOpen_def)
  show ?thesis
  proof (rule inv_update [OF inv, where i = i and s' = start])
    show "objects w' = (objects w)(i \<mapsto> start)" by (simp add: w')
    show "accepted w' \<subseteq> fds w'" using inv_accepted [OF inv] by (simp add: w')
  next
    fix j t assume "j \<noteq> i" "objects w j = Some t" "isOpen (this t)"
    with inv_owned [OF inv]
    show "getSocket (this t) \<in> fds w' \<and> getSocket (this t) \<notin> accepted w'"
      by (simp add: w')
  next
    assume "isOpen (this start)"
    with c show "getSocket (this start) \<in> fds w' \<and> getSocket (this start) \<notin> accepted w'
        \<and> (\<forall>j t. j \<noteq> i \<and> objects w j = Some t \<longrightarrow> getSocket (this t) \<noteq> getSocket (this start))"
      by simp
  qed
qed

lemma accept_preserves:
  assumes "world_inv w" "act (Accept h) w = Some w'" shows "world_inv w'"
proof -
  from assms(2) have w': "w' = w\<lparr>fds := insert h (fds w), accepted := insert h (accepted w)\<rparr>"
    and fresh: "h \<notin> fds w"
    by (auto split: if_splits)
  from assms(1) have "I2 w" by (rule inv_I2)
  then have "I2 w'" by (simp add: I2_def w')
  moreover have "\<forall>j t. objects w' j = Some t \<and> isOpen (this t) \<longrightarrow>
       getSocket (this t) \<in> fds w' \<and> getSocket (this t) \<notin> accepted w'"
    using inv_owned [OF assms(1)] fresh by (auto simp: w')
  ultimately show ?thesis using inv_accepted [OF assms(1)] by (auto simp: world_inv_def w')
qed

lemma delete_preserves:
  assumes "world_inv w" "act (Delete i ok) w = Some w'" shows "world_inv w'"
proof -
  from assms(2) obtain s where s: "objects w i = Some s"
    and w': "w' = w\<lparr>objects := (objects w)(i := None),
                    fds := (if isOpen (this s) then fds w - {getSocket (this s)} else fds w)\<rparr>"
    by (auto simp: dtor_effect split: option.splits)
  from assms(1) have i2: "I2 w" by (rule inv_I2)
  then have "I2 w'" unfolding I2_def w' by (simp split: if_splits) blast
  moreover have "\<forall>j t. objects w' j = Some t \<and> isOpen (this t) \<longrightarrow>
       getSocket (this t) \<in> fds w' \<and> getSocket (this t) \<notin> accepted w'"
  proof (intro allI impI, elim conjE)
    fix j t assume t: "objects w' j = Some t" and o: "isOpen (this t)"
    then have ji: "j \<noteq> i" and wt: "objects w j = Some t" by (auto simp: w' split: if_splits)
    from inv_owned [OF assms(1) wt o]
    have "getSocket (this t) \<in> fds w" "getSocket (this t) \<notin> accepted w" by simp_all
    moreover have "isOpen (this s) \<Longrightarrow> getSocket (this t) \<noteq> getSocket (this s)"
      using I2_others [OF i2 s _ ji wt] by simp
    ultimately show "getSocket (this t) \<in> fds w' \<and> getSocket (this t) \<notin> accepted w'"
      by (simp add: w')
  qed
  moreover have "accepted w' \<subseteq> fds w'"
    using inv_accepted [OF assms(1)] inv_owned [OF assms(1) s] by (auto simp: w')
  ultimately show ?thesis by (simp add: world_inv_def)
qed

lemma declare_preserves:
  assumes "world_inv w" "act (Call i (DeclareOpened h r)) w = Some w'" shows "world_inv w'"
proof -
  from assms(2) obtain s where s: "objects w i = Some s" and acc: "h \<in> accepted w"
    and w': "w' = w\<lparr>objects := (objects w)(i \<mapsto> declareOpened h r s),
                    accepted := accepted w - {h}\<rparr>"
    by (auto simp: exec.simps split: option.splits if_splits)
  have e: "exec (DeclareOpened h r) s = declareOpened h r s"
    by (simp add: exec.simps)
  have g: "getSocket (this (declareOpened h r s)) = h"
    by (simp add: op_defs getSocket_def)
  show ?thesis
  proof (rule inv_update [OF assms(1), where i = i and s' = "declareOpened h r s"])
    show "objects w' = (objects w)(i \<mapsto> declareOpened h r s)" by (simp add: w')
    show "accepted w' \<subseteq> fds w'" using inv_accepted [OF assms(1)] by (auto simp: w')
  next
    fix j t assume "j \<noteq> i" "objects w j = Some t" "isOpen (this t)"
    with inv_owned [OF assms(1)] show "getSocket (this t) \<in> fds w' \<and> getSocket (this t) \<notin> accepted w'"
      by (auto simp: w')
  next
    assume "isOpen (this (declareOpened h r s))"
    have "\<forall>j t. j \<noteq> i \<and> objects w j = Some t \<longrightarrow> getSocket (this t) \<noteq> h"
    proof (intro allI impI, elim conjE)
      fix j t assume "j \<noteq> i" and t: "objects w j = Some t"
      show "getSocket (this t) \<noteq> h"
      proof (cases "isOpen (this t)")
        case True
        from inv_owned [OF assms(1) t True] acc show ?thesis by auto
      next
        case False
        with \<open>isOpen (this (declareOpened h r s))\<close> g show ?thesis
          by (metis closed_differs)
      qed
    qed
    with acc inv_accepted [OF assms(1)] g
    show "getSocket (this (declareOpened h r s)) \<in> fds w' \<and>
          getSocket (this (declareOpened h r s)) \<notin> accepted w' \<and>
          (\<forall>j t. j \<noteq> i \<and> objects w j = Some t \<longrightarrow>
             getSocket (this t) \<noteq> getSocket (this (declareOpened h r s)))"
      by (auto simp: w')
  qed
qed


lemma same_preserves:
  assumes inv: "world_inv w" and s: "objects w i = Some s"
    and same: "this s' = this s"
    and obj: "objects w' = (objects w)(i \<mapsto> s')"
    and fd: "fds w' = fds w" and ac: "accepted w' = accepted w"
  shows "world_inv w'"
proof (rule inv_update [OF inv obj])
  show "accepted w' \<subseteq> fds w'" using inv_accepted [OF inv] by (simp add: fd ac)
next
  fix j t assume "j \<noteq> i" "objects w j = Some t" "isOpen (this t)"
  with inv_owned [OF inv] show "getSocket (this t) \<in> fds w' \<and> getSocket (this t) \<notin> accepted w'"
    by (simp add: fd ac)
next
  assume "isOpen (this s')"
  then have o: "isOpen (this s)" by (simp add: same)
  from inv_owned [OF inv s o] I2_others [OF inv_I2 [OF inv] s o]
  show "getSocket (this s') \<in> fds w' \<and> getSocket (this s') \<notin> accepted w'
        \<and> (\<forall>j t. j \<noteq> i \<and> objects w j = Some t \<longrightarrow> getSocket (this t) \<noteq> getSocket (this s'))"
    by (auto simp: fd ac same)
qed

lemma closed_preserves:
  assumes inv: "world_inv w" and s: "objects w i = Some s"
    and o: "isOpen (this s)" and c: "\<not> isOpen (this s')"
    and obj: "objects w' = (objects w)(i \<mapsto> s')"
    and fd: "fds w' = fds w - {getSocket (this s)}" and ac: "accepted w' = accepted w"
  shows "world_inv w'"
proof (rule inv_update [OF inv obj])
  show "accepted w' \<subseteq> fds w'"
    using inv_accepted [OF inv] inv_owned [OF inv s o] by (auto simp: fd ac)
next
  fix j t assume j: "j \<noteq> i" "objects w j = Some t" "isOpen (this t)"
  from inv_owned [OF inv j(2,3)] I2_others [OF inv_I2 [OF inv] s o j(1,2)]
  show "getSocket (this t) \<in> fds w' \<and> getSocket (this t) \<notin> accepted w'"
    by (simp add: fd ac)
next
  assume "isOpen (this s')"
  with c show "getSocket (this s') \<in> fds w' \<and> getSocket (this s') \<notin> accepted w'
        \<and> (\<forall>j t. j \<noteq> i \<and> objects w j = Some t \<longrightarrow> getSocket (this t) \<noteq> getSocket (this s'))"
    by simp
qed

lemma fresh_preserves:
  assumes inv: "world_inv w" and s: "objects w i = Some s"
    and o: "isOpen (this s')" and h: "getSocket (this s') \<notin> fds w"
    and obj: "objects w' = (objects w)(i \<mapsto> s')"
    and fd: "fds w' = insert (getSocket (this s')) (fds w)" and ac: "accepted w' = accepted w"
  shows "world_inv w'"
proof (rule inv_update [OF inv obj])
  show "accepted w' \<subseteq> fds w'" using inv_accepted [OF inv] by (auto simp: fd ac)
next
  fix j t assume "j \<noteq> i" "objects w j = Some t" "isOpen (this t)"
  with inv_owned [OF inv] show "getSocket (this t) \<in> fds w' \<and> getSocket (this t) \<notin> accepted w'"
    by (simp add: fd ac)
next
  have "\<forall>j t. j \<noteq> i \<and> objects w j = Some t \<longrightarrow> getSocket (this t) \<noteq> getSocket (this s')"
  proof (intro allI impI, elim conjE)
    fix j t assume "j \<noteq> i" and t: "objects w j = Some t"
    show "getSocket (this t) \<noteq> getSocket (this s')"
    proof (cases "isOpen (this t)")
      case True
      from inv_owned [OF inv t True] h show ?thesis by auto
    next
      case False
      with o show ?thesis by (metis closed_differs)
    qed
  qed
  with h inv_accepted [OF inv]
  show "getSocket (this s') \<in> fds w' \<and> getSocket (this s') \<notin> accepted w'
        \<and> (\<forall>j t. j \<noteq> i \<and> objects w j = Some t \<longrightarrow> getSocket (this t) \<noteq> getSocket (this s'))"
    by (auto simp: fd ac)
qed

lemma open_preserves:
  assumes inv: "world_inv w" and a: "act (Call i (Open h r)) w = Some w'"
  shows "world_inv w'"
proof -
  from a obtain s where s: "objects w i = Some s"
    and ok: "isOpen (this s) \<or> h = TS_SOCKET_T_INVALID \<or> h \<notin> fds w"
    and w': "w' = w\<lparr>objects := (objects w)(i \<mapsto> exec (Open h r) s),
                    fds := (if \<not> isOpen (this s) \<and> h \<noteq> TS_SOCKET_T_INVALID
                            then insert h (fds w) else fds w)\<rparr>"
    by (auto simp: open_effect split: option.splits if_splits)
  show ?thesis
  proof (cases "\<not> isOpen (this s) \<and> h \<noteq> TS_SOCKET_T_INVALID")
    case True
    with ok have "h \<notin> fds w" by simp
    with True show ?thesis
      by (intro fresh_preserves [OF inv s, where s' = "exec (Open h r) s"])
         (simp_all add: w' open_effect isOpen_def getSocket_def)
  next
    case False
    then show ?thesis
      by (intro same_preserves [OF inv s, where s' = "exec (Open h r) s"])
         (auto simp: w' open_effect)
  qed
qed

lemma close_preserves:
  assumes inv: "world_inv w" and a: "act (Call i (Close ok r)) w = Some w'"
  shows "world_inv w'"
proof -
  from a obtain s where s: "objects w i = Some s"
    and w': "w' = w\<lparr>objects := (objects w)(i \<mapsto> exec (Close ok r) s),
                    fds := (if isOpen (this s) then fds w - {getSocket (this s)} else fds w)\<rparr>"
    by (auto simp: close_effect split: option.splits)
  show ?thesis
  proof (cases "isOpen (this s)")
    case True
    then show ?thesis
      by (intro closed_preserves [OF inv s, where s' = "exec (Close ok r) s"])
         (simp_all add: w' close_effect isOpen_def)
  next
    case False
    then show ?thesis
      by (intro same_preserves [OF inv s, where s' = "exec (Close ok r) s"])
         (simp_all add: w' close_effect)
  qed
qed

lemma act_call:
  "\<forall>h r. x \<noteq> DeclareOpened h r \<Longrightarrow>
     act (Call i x) w =
       (case objects w i of
          None \<Rightarrow> None
        | Some s \<Rightarrow>
            if \<not> list_all (sys_possible (fds w)) (new_events s (exec x s)) then None
            else Some (w\<lparr>objects := (objects w)(i \<mapsto> exec x s),
                         fds := fold sys_effect (new_events s (exec x s)) (fds w)\<rparr>))"
  by (cases x) auto

lemma other_preserves:
  assumes inv: "world_inv w" and a: "act (Call i x) w = Some w'"
    and x: "\<not> is_open_op x" "\<forall>ok r. x \<noteq> Close ok r"
  shows "world_inv w'"
proof -
  from x(1) have "\<forall>h r. x \<noteq> DeclareOpened h r" by auto
  from a act_call [OF this, of i w] obtain s where s: "objects w i = Some s"
    and w': "w' = w\<lparr>objects := (objects w)(i \<mapsto> exec x s), fds := fds w\<rparr>"
    by (auto simp: other_effect [OF x] split: option.splits)
  show ?thesis
    by (intro same_preserves [OF inv s, where s' = "exec x s"])
       (simp_all add: w' other_effect [OF x])
qed

lemma act_preserves:
  assumes inv: "world_inv w" and a: "act a w = Some w'"
  shows "world_inv w'"
proof (cases a)
  case (New i)
  with inv a show ?thesis by (simp only: new_preserves)
next
  case (Delete i ok)
  with inv a show ?thesis by (simp only: delete_preserves)
next
  case (Accept h)
  with inv a show ?thesis by (simp only: accept_preserves)
next
  case (Call i x)
  show ?thesis
  proof (cases x)
    case (Open h r)
    with Call inv a show ?thesis by (simp only: open_preserves)
  next
    case (Close ok r)
    with Call inv a show ?thesis by (simp only: close_preserves)
  next
    case (DeclareOpened h r)
    with Call inv a show ?thesis by (simp only: declare_preserves)
  qed (use Call inv a in \<open>simp_all only: other_preserves is_open_op.simps op.distinct simp_thms\<close>)
qed

lemma runw_preserves:
  "world_inv w \<Longrightarrow> runw as w = Some w' \<Longrightarrow> world_inv w'"
  by (induction as arbitrary: w) (auto split: option.splits dest: act_preserves)

lemma empty_world_inv: "world_inv empty_world"
  by (simp add: world_inv_def I2_def empty_world_def)


text \<open>
  Claim C8. In every world that a sequence of actions reaches from the empty one, no two
  live objects hold the same valid handle. The actions are all there is: constructing,
  destroying, calling a member function, and a server accepting a connection; handles
  come from the operating system, which does not hand out a descriptor that is still open,
  and from a server, which hands over what it has accepted. No action copies an object.
\<close>

theorem exclusive_ownership:
  "runw as empty_world = Some w \<Longrightarrow> I2 w"
  using runw_preserves [OF empty_world_inv] inv_I2 by blast

theorem exclusive_ownership_witness:
  "runw [New 0, New 1, Call 0 (Open 3 CERR), Accept 4, Call 1 (DeclareOpened 4 CERR),
         Call 0 (Close True CERR), Call 0 (Open 3 CERR)] empty_world \<noteq> None
   \<and> I2 (the (runw [New 0, New 1, Call 0 (Open 3 CERR), Accept 4, Call 1 (DeclareOpened 4 CERR),
                    Call 0 (Close True CERR), Call 0 (Open 3 CERR)] empty_world))"
proof -
  have "runw [New 0, New 1, Call 0 (Open 3 CERR), Accept 4, Call 1 (DeclareOpened 4 CERR),
         Call 0 (Close True CERR), Call 0 (Open 3 CERR)] empty_world \<noteq> None"
    by (simp add: empty_world_def exec.simps op_defs Let_def new_events_def isOpen_def
                  start_def TCPSocket_ctor_def TS_SOCKET_T_INVALID_def)
  then obtain w where w:
    "runw [New 0, New 1, Call 0 (Open 3 CERR), Accept 4, Call 1 (DeclareOpened 4 CERR),
         Call 0 (Close True CERR), Call 0 (Open 3 CERR)] empty_world = Some w"
    by blast
  from exclusive_ownership [OF w] w show ?thesis by simp
qed

end
